theory Spec2Isabelle
  imports Main
begin

section \<open>Data model\<close>

text \<open>
  The navigation engine of siren-nav: \<open>steps.ts\<close> (\<open>reduce\<close>, \<open>accept\<close>, \<open>follow\<close>) and
  the \<open>SirenNav\<close> class. A \<open>Promise\<close> is modelled by its outcome: it is fulfilled with a
  value, rejected with an error, or it never settles. Operations run to completion one
  after the other; console output (the debug trace) is not modelled, the \<open>debug\<close> flag is
  still passed along as in the source.
\<close>

subsection \<open>Hypermedia documents\<close>

text \<open>The parts of a Siren document that \<open>follow\<close> reads, typed as \<open>siren-types\<close> has
  them: a link has a relation array and an href; a sub-entity has a relation array, an
  \<open>href\<close> property when it is an embedded link, and otherwise its own links and properties.
  \<open>entity.hasOwnProperty("href")\<close> is \<open>ent_href ent \<noteq> None\<close>, and
  \<open>entity.rel.indexOf(rel) == -1\<close> is \<open>rel \<notin> set (ent_rel ent)\<close>.\<close>

record link =
  link_rel :: "string list"
  link_href :: string

record entity =
  ent_rel :: "string list"
  ent_href :: "string option"
  ent_links :: "link list"
  ent_properties :: "(string \<times> string) list"

text \<open>\<open>entities\<close> and \<open>links\<close> may be missing from a document (\<open>siren.entities || []\<close>).\<close>

record siren =
  entities :: "entity list option"
  links :: "link list option"

subsection \<open>Errors and promises\<close>

text \<open>The two errors \<open>follow\<close> throws carry the relation name and the document in their
  message; any other rejection comes from a collaborator.\<close>

datatype error =
    NoMatch string siren
  | AmbiguousMatch string siren
  | CollaboratorFailure string

datatype 'a outcome = Resolved 'a | Rejected error | Pending

subsection \<open>Configurations and the object store\<close>

text \<open>
  A configuration object is written only between its creation and its storage in a
  \<open>NavState\<close>, so it is held by value; the nested \<open>headers\<close> object is shared between the
  copies a spread makes, so the configuration holds a reference to it and the header
  objects live in a store. The other own properties are either the request options
  \<open>{baseURL: base}\<close> of \<open>create\<close> or, after \<open>follow\<close> took a sub-entity, that entity.
\<close>

type_synonym addr = nat
type_synonym hdrs = "string \<rightharpoonup> string"

datatype payload = RequestOptions string | EntityData entity

record config =
  headers :: "addr option"
  payload :: payload

text \<open>The world: the store of header objects with the next free address, and the state
  \<open>ext\<close> of the collaborators (cache contents, network).\<close>

record 'x world =
  heap :: "addr \<Rightarrow> hdrs"
  fresh :: addr
  ext :: 'x

definition alloc :: "'x world \<Rightarrow> addr \<times> 'x world" where
  "alloc w = (fresh w, w\<lparr>heap := (heap w)(fresh w := Map.empty), fresh := Suc (fresh w)\<rparr>)"

subsection \<open>Navigation states, the cache, steps\<close>

text \<open>Modelled from the spec: the class \<open>NavState\<close> of \<open>state.ts\<close>, whose constructor takes
  the current URI, the root URI, the configuration and the cache handle of the current
  URI, in this order. The source reads the fields \<open>cur\<close>, \<open>root\<close> and \<open>config\<close>.\<close>

record 'h NavState =
  cur :: string
  root :: string
  config :: config
  cacheEntry :: 'h

text \<open>Modelled from the spec: the class \<open>Cache\<close> of \<open>cache.ts\<close>, with its single operation
  \<open>getOr\<close>, which returns a handle for a URI and may change the cache.\<close>

record ('h, 'x) cache =
  getOr :: "string \<Rightarrow> 'x \<Rightarrow> 'h \<times> 'x"

type_synonym ('h, 'x) step =
  "'h NavState \<Rightarrow> ('h, 'x) cache \<Rightarrow> bool \<Rightarrow> 'x world \<Rightarrow> 'h NavState outcome \<times> 'x world"

section \<open>steps.ts\<close>

fun reduce :: "'h NavState outcome \<Rightarrow> ('h, 'x) step list \<Rightarrow> ('h, 'x) cache \<Rightarrow> bool \<Rightarrow>
    'x world \<Rightarrow> 'h NavState outcome \<times> 'x world" where
  "reduce cur0 [] cache0 debug w = (cur0, w)"
| "reduce cur0 (step # rest) cache0 debug w =
     (case cur0 of
        Resolved state \<Rightarrow>
          (case step state cache0 debug w of (r, w') \<Rightarrow> reduce r rest cache0 debug w')
      | Rejected e \<Rightarrow> (Rejected e, w)
      | Pending \<Rightarrow> (Pending, w))"

definition accept :: "string \<Rightarrow> ('h, 'x) step" where
  "accept ctype = (\<lambda>state cache0 debug w.
     case (case headers (config state) of None \<Rightarrow> alloc w | Some a \<Rightarrow> (a, w)) of (a, w1) \<Rightarrow>
     let newconfig = (config state)\<lparr>headers := Some a\<rparr>;
         hs = heap w1 a;
         hs' = (case hs ''Accept'' of
                  Some v \<Rightarrow> hs(''Accept'' \<mapsto> v @ '', '' @ ctype)
                | None \<Rightarrow> hs(''Accept'' \<mapsto> ctype));
         w2 = w1\<lparr>heap := (heap w1)(a := hs')\<rparr>
     in case getOr cache0 (cur state) (ext w2) of (h, x) \<Rightarrow>
          (Resolved \<lparr>cur = cur state, root = root state, config = newconfig, cacheEntry = h\<rparr>,
           w2\<lparr>ext := x\<rparr>))"

text \<open>The body of \<open>siren.entities.forEach\<close>: \<open>possible\<close> and the cache state are threaded.
  \<open>getSelf\<close> (\<open>utils.ts\<close>) is a parameter; \<open>if (self)\<close> takes neither a missing result nor
  the empty string.\<close>

definition visit_entity :: "(entity \<Rightarrow> string option) \<Rightarrow> string \<Rightarrow> 'h NavState \<Rightarrow>
    ('h, 'x) cache \<Rightarrow> entity \<Rightarrow> 'h NavState list \<times> 'x \<Rightarrow> 'h NavState list \<times> 'x" where
  "visit_entity getSelf rel state cache0 ent = (\<lambda>(possible, x).
     if rel \<notin> set (ent_rel ent) then (possible, x)
     else case ent_href ent of
       Some href \<Rightarrow>
         (case getOr cache0 href x of (h, x') \<Rightarrow>
            (possible @ [\<lparr>cur = href, root = root state, config = config state,
                          cacheEntry = h\<rparr>], x'))
     | None \<Rightarrow>
         (case getSelf ent of
            Some self \<Rightarrow>
              if self \<noteq> [] then
                (case getOr cache0 self x of (h, x') \<Rightarrow>
                   (possible @ [\<lparr>cur = self, root = root state,
                                 config = \<lparr>headers = None, payload = EntityData ent\<rparr>,
                                 cacheEntry = h\<rparr>], x'))
              else (possible, x)
          | None \<Rightarrow> (possible, x)))"

definition visit_link :: "string \<Rightarrow> 'h NavState \<Rightarrow> ('h, 'x) cache \<Rightarrow> link \<Rightarrow>
    'h NavState list \<times> 'x \<Rightarrow> 'h NavState list \<times> 'x" where
  "visit_link rel state cache0 l = (\<lambda>(possible, x).
     if rel \<notin> set (link_rel l) then (possible, x)
     else case getOr cache0 (link_href l) x of (h, x') \<Rightarrow>
            (possible @ [\<lparr>cur = link_href l, root = root state, config = config state,
                          cacheEntry = h\<rparr>], x'))"

text \<open>The candidates of a document, in the order the two \<open>forEach\<close> loops push them.\<close>

definition collect :: "(entity \<Rightarrow> string option) \<Rightarrow> string \<Rightarrow> 'h NavState \<Rightarrow>
    ('h, 'x) cache \<Rightarrow> siren \<Rightarrow> 'x \<Rightarrow> 'h NavState list \<times> 'x" where
  "collect getSelf rel state cache0 doc x =
     fold (visit_link rel state cache0) (case links doc of None \<Rightarrow> [] | Some ls \<Rightarrow> ls)
       (fold (visit_entity getSelf rel state cache0)
          (case entities doc of None \<Rightarrow> [] | Some es \<Rightarrow> es) ([], x))"

text \<open>\<open>getSiren\<close> (\<open>utils.ts\<close>) is a parameter: it yields the document of the current
  resource, or fails. \<open>first\<close> is optional: \<open>None\<close> is the call \<open>follow(rel)\<close>.\<close>

definition follow :: "('h NavState \<Rightarrow> 'x world \<Rightarrow> siren outcome \<times> 'x world) \<Rightarrow>
    (entity \<Rightarrow> string option) \<Rightarrow> string \<Rightarrow> bool option \<Rightarrow> ('h, 'x) step" where
  "follow getSiren getSelf rel first = (\<lambda>state cache0 debug w.
     case getSiren state w of
       (Rejected e, w1) \<Rightarrow> (Rejected e, w1)
     | (Pending, w1) \<Rightarrow> (Pending, w1)
     | (Resolved doc, w1) \<Rightarrow>
         (case collect getSelf rel state cache0 doc (ext w1) of (possible, x) \<Rightarrow>
            if length possible = 0 then (Rejected (NoMatch rel doc), w1\<lparr>ext := x\<rparr>)
            else if length possible > 1 \<and> first \<noteq> Some True
              then (Rejected (AmbiguousMatch rel doc), w1\<lparr>ext := x\<rparr>)
            else (Resolved (possible ! 0), w1\<lparr>ext := x\<rparr>)))"

section \<open>The class SirenNav\<close>

text \<open>The methods \<open>follow\<close> and \<open>accept\<close> of the class are \<open>nav_follow\<close> and \<open>nav_accept\<close>
  here, the method \<open>do\<close> is \<open>do_step\<close>; \<open>sqaush\<close> is spelled as in the source. A method that
  calls the cache or resolves the chain takes the world and returns the new one.\<close>

record ('h, 'x) SirenNav =
  start :: "'h NavState outcome"
  steps :: "('h, 'x) step list"
  cache :: "('h, 'x) cache"

definition create :: "string \<Rightarrow> string \<Rightarrow> ('h, 'x) cache \<Rightarrow> 'x world \<Rightarrow>
    ('h, 'x) SirenNav \<times> 'x world" where
  "create url base cache0 w =
     (case getOr cache0 url (ext w) of (h, x) \<Rightarrow>
        (\<lparr>start = Resolved \<lparr>cur = url, root = base,
                              config = \<lparr>headers = None, payload = RequestOptions base\<rparr>,
                              cacheEntry = h\<rparr>,
          steps = [], cache = cache0\<rparr>, w\<lparr>ext := x\<rparr>))"

definition do_step :: "('h, 'x) step \<Rightarrow> ('h, 'x) SirenNav \<Rightarrow> ('h, 'x) SirenNav" where
  "do_step step nav = \<lparr>start = start nav, steps = steps nav @ [step], cache = cache nav\<rparr>"

definition nav_follow :: "('h NavState \<Rightarrow> 'x world \<Rightarrow> siren outcome \<times> 'x world) \<Rightarrow>
    (entity \<Rightarrow> string option) \<Rightarrow> string \<Rightarrow> bool option \<Rightarrow> ('h, 'x) SirenNav \<Rightarrow>
    ('h, 'x) SirenNav" where
  "nav_follow getSiren getSelf rel first nav = do_step (follow getSiren getSelf rel first) nav"

definition nav_accept :: "string \<Rightarrow> ('h, 'x) SirenNav \<Rightarrow> ('h, 'x) SirenNav" where
  "nav_accept ctype nav = do_step (accept ctype) nav"

definition sqaush :: "('h, 'x) SirenNav \<Rightarrow> bool \<Rightarrow> 'x world \<Rightarrow> ('h, 'x) SirenNav \<times> 'x world" where
  "sqaush nav debug w =
     (case reduce (start nav) (steps nav) (cache nav) debug w of (r, w') \<Rightarrow>
        (\<lparr>start = r, steps = [], cache = cache nav\<rparr>, w'))"

text \<open>\<open>goto\<close> awaits \<open>this.start\<close>; when that promise is rejected the executor throws
  before it calls \<open>resolve\<close>, and \<open>reject\<close> is never called: the new promise never settles.\<close>

definition goto :: "string \<Rightarrow> ('h, 'x) SirenNav \<Rightarrow> 'x world \<Rightarrow> ('h, 'x) SirenNav \<times> 'x world" where
  "goto url nav w =
     (case start nav of
        Resolved state \<Rightarrow>
          (case getOr (cache nav) url (ext w) of (h, x) \<Rightarrow>
             (\<lparr>start = Resolved \<lparr>cur = url, root = root state, config = config state,
                                   cacheEntry = h\<rparr>,
               steps = [], cache = cache nav\<rparr>, w\<lparr>ext := x\<rparr>))
      | Rejected e \<Rightarrow> (\<lparr>start = Pending, steps = [], cache = cache nav\<rparr>, w)
      | Pending \<Rightarrow> (\<lparr>start = Pending, steps = [], cache = cache nav\<rparr>, w))"

definition getURL :: "('h, 'x) SirenNav \<Rightarrow> bool \<Rightarrow> 'x world \<Rightarrow> string outcome \<times> 'x world" where
  "getURL nav debug w =
     (case reduce (start nav) (steps nav) (cache nav) debug w of
        (Resolved state, w') \<Rightarrow> (Resolved (cur state), w')
      | (Rejected e, w') \<Rightarrow> (Rejected e, w')
      | (Pending, w') \<Rightarrow> (Pending, w'))"

text \<open>\<open>getRequest\<close> (\<open>requests.ts\<close>) is a parameter; \<open>get\<close> yields the outcome of the response
  promise that \<open>NavResponse.create\<close> wraps.\<close>

definition get :: "('h NavState \<Rightarrow> bool \<Rightarrow> 'x world \<Rightarrow> 'r outcome \<times> 'x world) \<Rightarrow>
    ('h, 'x) SirenNav \<Rightarrow> bool \<Rightarrow> 'x world \<Rightarrow> 'r outcome \<times> 'x world" where
  "get getRequest nav debug w =
     (case reduce (start nav) (steps nav) (cache nav) debug w of
        (Resolved state, w') \<Rightarrow> getRequest state debug w'
      | (Rejected e, w') \<Rightarrow> (Rejected e, w')
      | (Pending, w') \<Rightarrow> (Pending, w'))"

section \<open>Definitions used by the statements\<close>

subsection \<open>The candidates of a document, as the specification describes them\<close>

text \<open>
  Written from the specification's words, to be compared with \<open>collect\<close>: a sub-entity whose
  relation set contains the target relation gives its \<open>href\<close> with the current configuration
  when it has one, otherwise its self URI with the entity as configuration when it has a
  self-reference; a link whose relation set contains the target relation gives its href with
  the current configuration. Sub-entities come first, each group in document order.
  A sub-entity has a self-reference when \<open>getSelf\<close> returns a URI that the source's test
  \<open>if (self)\<close> accepts, that is a non-empty string.
\<close>

definition spec_entity_candidate :: "(entity \<Rightarrow> string option) \<Rightarrow> string \<Rightarrow> 'h NavState \<Rightarrow>
    entity \<Rightarrow> (string \<times> config) option" where
  "spec_entity_candidate getSelf rel state ent =
     (if rel \<in> set (ent_rel ent) then
        (case ent_href ent of
           Some href \<Rightarrow> Some (href, config state)
         | None \<Rightarrow>
            (case getSelf ent of
               Some self \<Rightarrow>
                 if self = [] then None
                 else Some (self, \<lparr>headers = None, payload = EntityData ent\<rparr>)
             | None \<Rightarrow> None))
      else None)"

definition spec_link_candidate :: "string \<Rightarrow> 'h NavState \<Rightarrow> link \<Rightarrow> (string \<times> config) option" where
  "spec_link_candidate rel state l =
     (if rel \<in> set (link_rel l) then Some (link_href l, config state) else None)"

definition spec_candidates :: "(entity \<Rightarrow> string option) \<Rightarrow> string \<Rightarrow> 'h NavState \<Rightarrow> siren \<Rightarrow>
    (string \<times> config) list" where
  "spec_candidates getSelf rel state doc =
     List.map_filter (spec_entity_candidate getSelf rel state)
       (case entities doc of None \<Rightarrow> [] | Some es \<Rightarrow> es) @
     List.map_filter (spec_link_candidate rel state)
       (case links doc of None \<Rightarrow> [] | Some ls \<Rightarrow> ls)"

text \<open>What a candidate state points to: its URI and its configuration.\<close>

definition target :: "'h NavState \<Rightarrow> string \<times> config" where
  "target s = (cur s, config s)"

subsection \<open>Cache handles\<close>

text \<open>The handle of a state is one that \<open>getOr\<close> returned for the state's own URI.\<close>

definition acquired :: "('h, 'x) cache \<Rightarrow> 'h NavState \<Rightarrow> bool" where
  "acquired cache0 s = (\<exists>x. cacheEntry s = fst (getOr cache0 (cur s) x))"

definition derived :: "('h, 'x) cache \<Rightarrow> 'h NavState \<Rightarrow> 'h NavState \<Rightarrow> bool" where
  "derived cache0 state s = (root s = root state \<and> acquired cache0 s)"

text \<open>The navigators that the operations of the engine build, for a given cache and given
  collaborators \<open>getSiren\<close> and \<open>getSelf\<close>; each operation may run in any world.\<close>

inductive engine_nav :: "('h NavState \<Rightarrow> 'x world \<Rightarrow> siren outcome \<times> 'x world) \<Rightarrow>
    (entity \<Rightarrow> string option) \<Rightarrow> ('h, 'x) cache \<Rightarrow> ('h, 'x) SirenNav \<Rightarrow> bool"
  for getSiren getSelf cache0 where
    by_create: "engine_nav getSiren getSelf cache0 (fst (create url base cache0 w))"
  | by_accept: "engine_nav getSiren getSelf cache0 nav \<Longrightarrow>
      engine_nav getSiren getSelf cache0 (nav_accept ctype nav)"
  | by_follow: "engine_nav getSiren getSelf cache0 nav \<Longrightarrow>
      engine_nav getSiren getSelf cache0 (nav_follow getSiren getSelf rel first nav)"
  | by_goto: "engine_nav getSiren getSelf cache0 nav \<Longrightarrow>
      engine_nav getSiren getSelf cache0 (fst (goto url nav w))"
  | by_sqaush: "engine_nav getSiren getSelf cache0 nav \<Longrightarrow>
      engine_nav getSiren getSelf cache0 (fst (sqaush nav debug w))"

subsection \<open>The Accept header of a state\<close>

text \<open>The value a request made from state \<open>s\<close> in world \<open>w\<close> sends as \<open>Accept\<close>:
  \<open>s.config.headers["Accept"]\<close>, read through the reference.\<close>

definition acceptHeader :: "'x world \<Rightarrow> 'h NavState \<Rightarrow> string option" where
  "acceptHeader w s = (case headers (config s) of None \<Rightarrow> None | Some a \<Rightarrow> heap w a ''Accept'')"

subsection \<open>Sequential composition of steps\<close>

text \<open>Written from the specification's words: the left-to-right fold that waits for the
  previous result; a step runs only on a fulfilled result, a failure is passed on.\<close>

definition then_step :: "('h, 'x) cache \<Rightarrow> bool \<Rightarrow> 'h NavState outcome \<times> 'x world \<Rightarrow>
    ('h, 'x) step \<Rightarrow> 'h NavState outcome \<times> 'x world" where
  "then_step cache0 debug acc step =
     (case acc of
        (Resolved state, w) \<Rightarrow> step state cache0 debug w
      | (Rejected e, w) \<Rightarrow> (Rejected e, w)
      | (Pending, w) \<Rightarrow> (Pending, w))"

definition spec_fold :: "'h NavState outcome \<Rightarrow> ('h, 'x) step list \<Rightarrow> ('h, 'x) cache \<Rightarrow> bool \<Rightarrow>
    'x world \<Rightarrow> 'h NavState outcome \<times> 'x world" where
  "spec_fold cur0 ss cache0 debug w = foldl (then_step cache0 debug) (cur0, w) ss"

definition final_state :: "('h, 'x) SirenNav \<Rightarrow> bool \<Rightarrow> 'x world \<Rightarrow> 'h NavState outcome" where
  "final_state nav debug w = fst (reduce (start nav) (steps nav) (cache nav) debug w)"

subsection \<open>Concrete inputs\<close>

text \<open>A cache whose handle for a URI is the URI itself and which records every request;
  the world before anything ran; a \<open>getSelf\<close> that takes the href of the first link with
  relation \<open>self\<close>; a transport that serves one fixed document.\<close>

definition uri_cache :: "(string, string list) cache" where
  "uri_cache = \<lparr>getOr = (\<lambda>u x. (u, x @ [u]))\<rparr>"

definition empty_world :: "string list world" where
  "empty_world = \<lparr>heap = (\<lambda>a. Map.empty), fresh = 0, ext = []\<rparr>"

definition self_href :: "entity \<Rightarrow> string option" where
  "self_href ent = map_option link_href (find (\<lambda>l. ''self'' \<in> set (link_rel l)) (ent_links ent))"

definition serve :: "siren \<Rightarrow> string NavState \<Rightarrow> string list world \<Rightarrow>
    siren outcome \<times> string list world" where
  "serve doc state w = (Resolved doc, w)"

definition item1 :: entity where
  "item1 = \<lparr>ent_rel = [''item''], ent_href = Some ''/items/1'', ent_links = [],
            ent_properties = []\<rparr>"

definition item2 :: entity where
  "item2 = \<lparr>ent_rel = [''item'', ''second''], ent_href = None,
            ent_links = [\<lparr>link_rel = [''self''], link_href = ''/items/2''\<rparr>],
            ent_properties = [(''name'', ''two'')]\<rparr>"

definition item_bare :: entity where
  "item_bare = \<lparr>ent_rel = [''item'', ''bare''], ent_href = None, ent_links = [],
                ent_properties = []\<rparr>"

definition api_doc :: siren where
  "api_doc = \<lparr>entities = Some [item_bare, item2, item1],
              links = Some [\<lparr>link_rel = [''widgets''], link_href = ''/widgets''\<rparr>,
                            \<lparr>link_rel = [''item''], link_href = ''/items/3''\<rparr>]\<rparr>"

definition api_state :: "string NavState" where
  "api_state = \<lparr>cur = ''/api'', root = ''http://h'',
                config = \<lparr>headers = None, payload = RequestOptions ''http://h''\<rparr>,
                cacheEntry = ''/api''\<rparr>"

definition api_nav :: "(string, string list) SirenNav \<times> string list world" where
  "api_nav = create ''/api'' ''http://h'' uri_cache empty_world"

text \<open>\<open>SirenNav.create("/api", "http://h", cache).accept("x")\<close>, and the same navigator
  after \<open>sqaush()\<close>, whose starting state \<open>squashed_state\<close> has a headers object.\<close>

definition pending_nav :: "(string, string list) SirenNav" where
  "pending_nav = nav_accept ''x'' (fst api_nav)"

definition squashed_nav :: "(string, string list) SirenNav \<times> string list world" where
  "squashed_nav = sqaush pending_nav False (snd api_nav)"

definition squashed_state :: "string NavState" where
  "squashed_state = \<lparr>cur = ''/api'', root = ''http://h'',
                     config = \<lparr>headers = Some 0, payload = RequestOptions ''http://h''\<rparr>,
                     cacheEntry = ''/api''\<rparr>"

text \<open>\<open>create(...).follow("widgets")\<close> and \<open>create(...).accept("a").follow("item", true)\<close>
  against a transport that serves \<open>api_doc\<close>.\<close>

definition widgets_nav :: "(string, string list) SirenNav" where
  "widgets_nav = nav_follow (serve api_doc) self_href ''widgets'' None (fst api_nav)"

definition item_nav :: "(string, string list) SirenNav" where
  "item_nav = nav_follow (serve api_doc) self_href ''item'' (Some True)
     (nav_accept ''a'' (fst api_nav))"

text \<open>A document whose only item with relation \<open>bare\<close> has neither href nor self link.\<close>

definition bare_doc :: siren where
  "bare_doc = \<lparr>entities = Some [item_bare],
               links = Some [\<lparr>link_rel = [''widgets''], link_href = ''/widgets''\<rparr>]\<rparr>"

section \<open>Properties\<close>

subsection \<open>Reduction\<close>

lemma reduce_Rejected: "reduce (Rejected e) ss cache0 debug w = (Rejected e, w)"
  by (cases ss) simp_all

lemma reduce_Pending: "reduce Pending ss cache0 debug w = (Pending, w)"
  by (cases ss) simp_all

lemma reduce_append:
  "reduce cur0 (ss @ ts) cache0 debug w =
     reduce (fst (reduce cur0 ss cache0 debug w)) ts cache0 debug
       (snd (reduce cur0 ss cache0 debug w))"
proof (induction ss arbitrary: cur0 w)
  case Nil
  show ?case by simp
next
  case (Cons s ss)
  show ?case
  proof (cases cur0)
    case (Resolved state)
    then show ?thesis by (simp add: Cons.IH split: prod.splits)
  next
    case (Rejected e)
    then show ?thesis by (simp add: reduce_Rejected)
  next
    case Pending
    then show ?thesis by (simp add: reduce_Pending)
  qed
qed

lemma foldl_then_step_Rejected:
  "foldl (then_step cache0 debug) (Rejected e, w) ss = (Rejected e, w)"
  by (induction ss) (simp_all add: then_step_def)

lemma foldl_then_step_Pending:
  "foldl (then_step cache0 debug) (Pending, w) ss = (Pending, w)"
  by (induction ss) (simp_all add: then_step_def)

lemma reduce_spec_fold: "reduce cur0 ss cache0 debug w = spec_fold cur0 ss cache0 debug w"
proof (induction ss arbitrary: cur0 w)
  case Nil
  show ?case by (simp add: spec_fold_def)
next
  case (Cons s ss)
  show ?case
  proof (cases cur0)
    case (Resolved state)
    obtain r w' where st: "s state cache0 debug w = (r, w')"
      by (cases "s state cache0 debug w")
    have "reduce cur0 (s # ss) cache0 debug w = reduce r ss cache0 debug w'"
      by (simp add: Resolved st)
    also have "\<dots> = spec_fold r ss cache0 debug w'"
      by (rule Cons.IH)
    also have "\<dots> = spec_fold cur0 (s # ss) cache0 debug w"
      by (simp add: spec_fold_def then_step_def Resolved st)
    finally show ?thesis .
  next
    case (Rejected e)
    then show ?thesis by (simp add: spec_fold_def then_step_def foldl_then_step_Rejected)
  next
    case Pending
    then show ?thesis by (simp add: spec_fold_def then_step_def foldl_then_step_Pending)
  qed
qed

text \<open>
  Claim C6. \<open>reduce\<close> is the strict left-to-right fold of the steps over the starting
  state (\<open>spec_fold\<close>): on the empty list it returns the starting state as it is, with no
  effect; on a fulfilled starting state it applies the first step and goes on with that
  step's result and the remaining steps; a rejected state is passed on and no step runs; and
  when the steps before some step resolve and that step fails, the whole reduction yields
  that failure and the world that step left, whatever steps come after it.
\<close>

theorem reduce_sequential_fold:
  "reduce cur0 ss cache0 debug w = spec_fold cur0 ss cache0 debug w
   \<and> reduce cur0 [] cache0 debug w = (cur0, w)
   \<and> reduce (Resolved state) (step # rest) cache0 debug w =
       reduce (fst (step state cache0 debug w)) rest cache0 debug (snd (step state cache0 debug w))
   \<and> reduce (Rejected e) ss cache0 debug w = (Rejected e, w)
   \<and> (reduce cur0 pre cache0 debug w = (Resolved state, w1) \<and>
        step state cache0 debug w1 = (Rejected e, w2) \<longrightarrow>
          reduce cur0 (pre @ step # rest) cache0 debug w = (Rejected e, w2))"
proof -
  have a: "reduce cur0 ss cache0 debug w = spec_fold cur0 ss cache0 debug w"
    by (rule reduce_spec_fold)
  have b: "reduce cur0 [] cache0 debug w = (cur0, w)"
    by simp
  have c: "reduce (Resolved state) (step # rest) cache0 debug w =
       reduce (fst (step state cache0 debug w)) rest cache0 debug (snd (step state cache0 debug w))"
    by (simp add: split_beta)
  have d: "reduce (Rejected e) ss cache0 debug w = (Rejected e, w)"
    by (rule reduce_Rejected)
  have e: "reduce cur0 (pre @ step # rest) cache0 debug w = (Rejected e, w2)"
    if "reduce cur0 pre cache0 debug w = (Resolved state, w1)"
      and "step state cache0 debug w1 = (Rejected e, w2)"
    using that by (simp add: reduce_append reduce_Rejected)
  from a b c d e show ?thesis by blast
qed

subsection \<open>Squashing\<close>

text \<open>
  Claim C7. \<open>sqaush\<close> returns a navigator with an empty step list whose starting state is the
  result of resolving the original chain; \<open>get\<close> on it hands the transport the same state in
  the same world as \<open>get\<close> on the original navigator does; every later reduction of the
  squashed navigator returns its starting state and leaves the world as it is, so no
  pre-squash step runs again; and when the chain is idempotent (resolving it again after
  the squash gives the same state), the squashed navigator and the original one resolve
  to the same state after the squash too.
\<close>

theorem sqaush_resolves_once:
  "steps (fst (sqaush nav debug w)) = []
   \<and> start (fst (sqaush nav debug w)) = final_state nav debug w
   \<and> get getRequest (fst (sqaush nav debug w)) debug (snd (sqaush nav debug w)) =
       get getRequest nav debug w
   \<and> (\<forall>d' w'. reduce (start (fst (sqaush nav debug w))) (steps (fst (sqaush nav debug w)))
          (cache (fst (sqaush nav debug w))) d' w' = (start (fst (sqaush nav debug w)), w'))
   \<and> (final_state nav debug (snd (sqaush nav debug w)) = final_state nav debug w \<longrightarrow>
        final_state (fst (sqaush nav debug w)) debug (snd (sqaush nav debug w)) =
        final_state nav debug (snd (sqaush nav debug w)))"
  by (simp add: sqaush_def get_def final_state_def split: prod.splits)

subsection \<open>Relation resolution\<close>

text \<open>The states \<open>collect\<close> pushes point to the candidates of the specification, in
  the same order; each has the root of the current state and a handle for its own URI.\<close>

lemma map_filter_Cons:
  "List.map_filter f (a # as) =
     (case f a of None \<Rightarrow> List.map_filter f as | Some b \<Rightarrow> b # List.map_filter f as)"
  by (simp add: List.map_filter_def split: option.splits)

lemma target_simp [simp]:
  "target \<lparr>cur = u, root = r, config = c, cacheEntry = h\<rparr> = (u, c)"
  by (simp add: target_def)

lemma visit_entity_eq:
  "visit_entity getSelf rel state cache0 e (ps, x) =
     (case spec_entity_candidate getSelf rel state e of
        None \<Rightarrow> (ps, x)
      | Some (u, c) \<Rightarrow>
          (ps @ [\<lparr>cur = u, root = root state, config = c,
                   cacheEntry = fst (getOr cache0 u x)\<rparr>], snd (getOr cache0 u x)))"
  by (simp add: visit_entity_def spec_entity_candidate_def split: option.splits prod.splits)

lemma visit_link_eq:
  "visit_link rel state cache0 l (ps, x) =
     (case spec_link_candidate rel state l of
        None \<Rightarrow> (ps, x)
      | Some (u, c) \<Rightarrow>
          (ps @ [\<lparr>cur = u, root = root state, config = c,
                   cacheEntry = fst (getOr cache0 u x)\<rparr>], snd (getOr cache0 u x)))"
  by (simp add: visit_link_def spec_link_candidate_def split: option.splits prod.splits)

lemma fold_visit_entity_targets:
  "map target (fst (fold (visit_entity getSelf rel state cache0) es (ps, x))) =
     map target ps @ List.map_filter (spec_entity_candidate getSelf rel state) es"
proof (induction es arbitrary: ps x)
  case Nil
  show ?case by (simp add: List.map_filter_def)
next
  case (Cons e es)
  show ?case
    by (simp add: visit_entity_eq map_filter_Cons Cons.IH split: option.splits)
qed

lemma fold_visit_link_targets:
  "map target (fst (fold (visit_link rel state cache0) ls (ps, x))) =
     map target ps @ List.map_filter (spec_link_candidate rel state) ls"
proof (induction ls arbitrary: ps x)
  case Nil
  show ?case by (simp add: List.map_filter_def)
next
  case (Cons l ls)
  show ?case
    by (simp add: visit_link_eq map_filter_Cons Cons.IH split: option.splits)
qed

lemma collect_targets:
  "map target (fst (collect getSelf rel state cache0 doc x)) =
     spec_candidates getSelf rel state doc"
proof -
  obtain ps y where e: "fold (visit_entity getSelf rel state cache0)
      (case entities doc of None \<Rightarrow> [] | Some es \<Rightarrow> es) ([], x) = (ps, y)"
    by (cases "fold (visit_entity getSelf rel state cache0)
      (case entities doc of None \<Rightarrow> [] | Some es \<Rightarrow> es) ([], x)")
  have "map target ps = List.map_filter (spec_entity_candidate getSelf rel state)
      (case entities doc of None \<Rightarrow> [] | Some es \<Rightarrow> es)"
    using fold_visit_entity_targets [of getSelf rel state cache0
        "case entities doc of None \<Rightarrow> [] | Some es \<Rightarrow> es" "[]" x]
    by (simp add: e)
  then show ?thesis
    by (simp add: collect_def e fold_visit_link_targets spec_candidates_def)
qed

lemma fold_visit_entity_derived:
  "list_all (derived cache0 state) ps \<Longrightarrow>
     list_all (derived cache0 state) (fst (fold (visit_entity getSelf rel state cache0) es (ps, x)))"
proof (induction es arbitrary: ps x)
  case Nil
  then show ?case by simp
next
  case (Cons e es)
  show ?case
  proof (cases "spec_entity_candidate getSelf rel state e")
    case None
    then show ?thesis using Cons by (simp add: visit_entity_eq)
  next
    case (Some t)
    obtain u c where t: "t = (u, c)" by (cases t)
    have "derived cache0 state
        \<lparr>cur = u, root = root state, config = c, cacheEntry = fst (getOr cache0 u x)\<rparr>"
      by (auto simp: derived_def acquired_def)
    with Cons.prems have "list_all (derived cache0 state)
        (ps @ [\<lparr>cur = u, root = root state, config = c, cacheEntry = fst (getOr cache0 u x)\<rparr>])"
      by simp
    then show ?thesis using Some t Cons.IH by (simp add: visit_entity_eq)
  qed
qed

lemma fold_visit_link_derived:
  "list_all (derived cache0 state) ps \<Longrightarrow>
     list_all (derived cache0 state) (fst (fold (visit_link rel state cache0) ls (ps, x)))"
proof (induction ls arbitrary: ps x)
  case Nil
  then show ?case by simp
next
  case (Cons l ls)
  show ?case
  proof (cases "spec_link_candidate rel state l")
    case None
    then show ?thesis using Cons by (simp add: visit_link_eq)
  next
    case (Some t)
    obtain u c where t: "t = (u, c)" by (cases t)
    have "derived cache0 state
        \<lparr>cur = u, root = root state, config = c, cacheEntry = fst (getOr cache0 u x)\<rparr>"
      by (auto simp: derived_def acquired_def)
    with Cons.prems have "list_all (derived cache0 state)
        (ps @ [\<lparr>cur = u, root = root state, config = c, cacheEntry = fst (getOr cache0 u x)\<rparr>])"
      by simp
    then show ?thesis using Some t Cons.IH by (simp add: visit_link_eq)
  qed
qed

lemma collect_derived:
  "list_all (derived cache0 state) (fst (collect getSelf rel state cache0 doc x))"
proof -
  obtain ps y where e: "fold (visit_entity getSelf rel state cache0)
      (case entities doc of None \<Rightarrow> [] | Some es \<Rightarrow> es) ([], x) = (ps, y)"
    by (cases "fold (visit_entity getSelf rel state cache0)
      (case entities doc of None \<Rightarrow> [] | Some es \<Rightarrow> es) ([], x)")
  have "list_all (derived cache0 state) ps"
    using fold_visit_entity_derived [of cache0 state "[]" getSelf rel
        "case entities doc of None \<Rightarrow> [] | Some es \<Rightarrow> es" x]
    by (simp add: e)
  then show ?thesis
    by (simp add: collect_def e fold_visit_link_derived)
qed

text \<open>\<open>follow\<close> on a fetched document.\<close>

lemma follow_on_doc:
  assumes "getSiren state w = (Resolved doc, w1)"
  shows "fst (follow getSiren getSelf rel first state cache0 debug w) =
     (if fst (collect getSelf rel state cache0 doc (ext w1)) = [] then Rejected (NoMatch rel doc)
      else if 1 < length (fst (collect getSelf rel state cache0 doc (ext w1))) \<and> first \<noteq> Some True
        then Rejected (AmbiguousMatch rel doc)
      else Resolved (hd (fst (collect getSelf rel state cache0 doc (ext w1)))))"
  using assms by (simp add: follow_def hd_conv_nth split: prod.splits)

lemma collect_length:
  "length (fst (collect getSelf rel state cache0 doc x)) =
     length (spec_candidates getSelf rel state doc)"
  using collect_targets [of getSelf rel state cache0 doc x] by (metis length_map)

lemma collect_Nil_iff:
  "fst (collect getSelf rel state cache0 doc x) = [] \<longleftrightarrow> spec_candidates getSelf rel state doc = []"
  using collect_length [of getSelf rel state cache0 doc x] by (metis length_0_conv)

lemma collect_hd:
  "fst (collect getSelf rel state cache0 doc x) \<noteq> [] \<Longrightarrow>
     target (hd (fst (collect getSelf rel state cache0 doc x))) =
       hd (spec_candidates getSelf rel state doc)"
  using collect_targets [of getSelf rel state cache0 doc x] by (metis hd_map)

lemma follow_outcome:
  assumes "getSiren state w = (Resolved doc, w1)"
  shows "fst (follow getSiren getSelf rel first state cache0 debug w) =
     (if spec_candidates getSelf rel state doc = [] then Rejected (NoMatch rel doc)
      else if 1 < length (spec_candidates getSelf rel state doc) \<and> first \<noteq> Some True
        then Rejected (AmbiguousMatch rel doc)
      else Resolved (hd (fst (collect getSelf rel state cache0 doc (ext w1)))))"
  using follow_on_doc [where getSiren = getSiren and state = state and w = w and doc = doc
      and ?w1.0 = w1 and getSelf = getSelf and rel = rel and first = first and ?cache0.0 = cache0
      and debug = debug] assms
  by (simp add: collect_Nil_iff collect_length)

text \<open>
  Claim C3. On a fetched document, \<open>follow\<close> fails with NoMatch (carrying the relation name
  and the document) exactly when there is no candidate, fails with AmbiguousMatch exactly
  when there is more than one candidate and \<open>first\<close> is false or unset, fails in no other
  case, and succeeds in every other case.
\<close>

theorem follow_fails_iff:
  assumes "getSiren state w = (Resolved doc, w1)"
  shows "(fst (follow getSiren getSelf rel first state cache0 debug w) = Rejected (NoMatch rel doc)
            \<longleftrightarrow> spec_candidates getSelf rel state doc = [])
       \<and> (fst (follow getSiren getSelf rel first state cache0 debug w) =
              Rejected (AmbiguousMatch rel doc)
            \<longleftrightarrow> 1 < length (spec_candidates getSelf rel state doc) \<and> first \<noteq> Some True)
       \<and> ((\<exists>e. fst (follow getSiren getSelf rel first state cache0 debug w) = Rejected e)
            \<longleftrightarrow> spec_candidates getSelf rel state doc = [] \<or>
                1 < length (spec_candidates getSelf rel state doc) \<and> first \<noteq> Some True)
       \<and> ((\<exists>s. fst (follow getSiren getSelf rel first state cache0 debug w) = Resolved s)
            \<longleftrightarrow> \<not> (spec_candidates getSelf rel state doc = [] \<or>
                1 < length (spec_candidates getSelf rel state doc) \<and> first \<noteq> Some True))"
  using follow_outcome [where getSiren = getSiren and state = state and w = w and doc = doc
      and ?w1.0 = w1 and getSelf = getSelf and rel = rel and first = first and ?cache0.0 = cache0
      and debug = debug] assms
  by auto

text \<open>
  Claim C4. Whenever \<open>follow\<close> succeeds, the resulting state points to the first candidate
  of the scan order (sub-entities before links, document order within each), with the
  root of the current state; with exactly one candidate the result is that candidate
  whatever the flag is; with two or more and \<open>first\<close> true it is the first one.
\<close>

theorem follow_takes_first_candidate:
  assumes "getSiren state w = (Resolved doc, w1)"
  shows "(\<forall>s. fst (follow getSiren getSelf rel first state cache0 debug w) = Resolved s \<longrightarrow>
            spec_candidates getSelf rel state doc \<noteq> [] \<and>
            target s = hd (spec_candidates getSelf rel state doc) \<and> root s = root state)
       \<and> (\<forall>t. spec_candidates getSelf rel state doc = [t] \<longrightarrow>
            (\<forall>f. \<exists>s. fst (follow getSiren getSelf rel f state cache0 debug w) = Resolved s \<and>
                 target s = t))
       \<and> (1 < length (spec_candidates getSelf rel state doc) \<longrightarrow>
            (\<exists>s. fst (follow getSiren getSelf rel (Some True) state cache0 debug w) = Resolved s \<and>
                 target s = hd (spec_candidates getSelf rel state doc)))"
proof -
  let ?ps = "fst (collect getSelf rel state cache0 doc (ext w1))"
  let ?cs = "spec_candidates getSelf rel state doc"
  have out: "fst (follow getSiren getSelf rel f state cache0 debug w) =
     (if ?cs = [] then Rejected (NoMatch rel doc)
      else if 1 < length ?cs \<and> f \<noteq> Some True then Rejected (AmbiguousMatch rel doc)
      else Resolved (hd ?ps))" for f
    using follow_outcome [where getSiren = getSiren and state = state and w = w and doc = doc
      and ?w1.0 = w1 and getSelf = getSelf and rel = rel and first = f and ?cache0.0 = cache0
      and debug = debug] assms
    by simp
  have hd_t: "target (hd ?ps) = hd ?cs" if "?cs \<noteq> []"
    using that collect_hd [of getSelf rel state cache0 doc "ext w1"] by (simp add: collect_Nil_iff)
  have hd_r: "root (hd ?ps) = root state" if "?cs \<noteq> []"
  proof -
    from that have ne: "?ps \<noteq> []" by (simp add: collect_Nil_iff)
    have "list_all (derived cache0 state) ?ps" by (rule collect_derived)
    with ne have "derived cache0 state (hd ?ps)" by (cases ?ps) simp_all
    then show ?thesis by (simp add: derived_def)
  qed
  have a: "?cs \<noteq> [] \<and> target s = hd ?cs \<and> root s = root state"
    if "fst (follow getSiren getSelf rel first state cache0 debug w) = Resolved s" for s
    using that hd_t hd_r by (auto simp: out split: if_splits)
  have b: "\<exists>s. fst (follow getSiren getSelf rel f state cache0 debug w) = Resolved s \<and> target s = t"
    if "?cs = [t]" for t f
    using that hd_t by (simp add: out)
  have c: "\<exists>s. fst (follow getSiren getSelf rel (Some True) state cache0 debug w) = Resolved s \<and>
      target s = hd ?cs" if "1 < length ?cs"
  proof -
    from that have "?cs \<noteq> []" by auto
    then show ?thesis using hd_t that by (simp add: out)
  qed
  from a b c show ?thesis by blast
qed

text \<open>
  Claim C5. The candidate states \<open>follow\<close> builds: a matching sub-entity with an \<open>href\<close>
  gives a state at that href with the current configuration; a matching sub-entity without
  \<open>href\<close> whose self URI is present (and not the empty string, which \<open>if (self)\<close> does not
  take) gives a state at the self URI with the entity as configuration; a matching link
  gives a state at its href with the current configuration; each is pushed after the
  earlier candidates with a handle from \<open>getOr\<close> for its URI. The states collected from a
  document point to the candidates the specification lists, in its order.
\<close>

theorem follow_candidate_states:
  "(rel \<in> set (ent_rel ent) \<and> ent_href ent = Some href \<longrightarrow>
      visit_entity getSelf rel state cache0 ent (ps, x) =
        (ps @ [\<lparr>cur = href, root = root state, config = config state,
                 cacheEntry = fst (getOr cache0 href x)\<rparr>], snd (getOr cache0 href x)))
   \<and> (rel \<in> set (ent_rel ent) \<and> ent_href ent = None \<and> getSelf ent = Some self \<and> self \<noteq> [] \<longrightarrow>
      visit_entity getSelf rel state cache0 ent (ps, x) =
        (ps @ [\<lparr>cur = self, root = root state,
                 config = \<lparr>headers = None, payload = EntityData ent\<rparr>,
                 cacheEntry = fst (getOr cache0 self x)\<rparr>], snd (getOr cache0 self x)))
   \<and> (rel \<in> set (link_rel l) \<longrightarrow>
      visit_link rel state cache0 l (ps, x) =
        (ps @ [\<lparr>cur = link_href l, root = root state, config = config state,
                 cacheEntry = fst (getOr cache0 (link_href l) x)\<rparr>],
         snd (getOr cache0 (link_href l) x)))
   \<and> map target (fst (collect getSelf rel state cache0 doc x)) =
       spec_candidates getSelf rel state doc"
  by (simp add: visit_entity_def visit_link_def collect_targets split: prod.splits)

lemma fold_visit_entity_skip:
  "\<forall>ent \<in> set es. spec_entity_candidate getSelf rel state ent = None \<Longrightarrow>
     fold (visit_entity getSelf rel state cache0) es (ps, x) = (ps, x)"
  by (induction es) (simp_all add: visit_entity_eq)

lemma fold_visit_link_skip:
  "\<forall>l \<in> set ls. spec_link_candidate rel state l = None \<Longrightarrow>
     fold (visit_link rel state cache0) ls (ps, x) = (ps, x)"
  by (induction ls) (simp_all add: visit_link_eq)

text \<open>
  Claim C10. A sub-entity that carries the relation but has neither an \<open>href\<close> nor a self
  URI is skipped: the loop body leaves the candidates and the cache as they are. When every
  sub-entity that carries the relation is of this kind and no link carries it, \<open>follow\<close>
  fails with NoMatch.
\<close>

theorem follow_skips_entity_without_reference:
  "(rel \<in> set (ent_rel ent) \<and> ent_href ent = None \<and>
      (getSelf ent = None \<or> getSelf ent = Some []) \<longrightarrow>
        visit_entity getSelf rel state cache0 ent (ps, x) = (ps, x))
   \<and> (getSiren state w = (Resolved doc, w1) \<and>
      (\<forall>ent \<in> set (case entities doc of None \<Rightarrow> [] | Some es \<Rightarrow> es).
          rel \<in> set (ent_rel ent) \<longrightarrow>
            ent_href ent = None \<and> (getSelf ent = None \<or> getSelf ent = Some [])) \<and>
      (\<forall>l \<in> set (case links doc of None \<Rightarrow> [] | Some ls \<Rightarrow> ls). rel \<notin> set (link_rel l)) \<longrightarrow>
        follow getSiren getSelf rel first state cache0 debug w = (Rejected (NoMatch rel doc), w1))"
proof -
  have a: "visit_entity getSelf rel state cache0 ent (ps, x) = (ps, x)"
    if "rel \<in> set (ent_rel ent)" "ent_href ent = None"
       "getSelf ent = None \<or> getSelf ent = Some []"
    using that by (auto simp: visit_entity_def)
  have b: "follow getSiren getSelf rel first state cache0 debug w = (Rejected (NoMatch rel doc), w1)"
    if g: "getSiren state w = (Resolved doc, w1)"
      and es: "\<forall>ent \<in> set (case entities doc of None \<Rightarrow> [] | Some es \<Rightarrow> es).
          rel \<in> set (ent_rel ent) \<longrightarrow>
            ent_href ent = None \<and> (getSelf ent = None \<or> getSelf ent = Some [])"
      and ls: "\<forall>l \<in> set (case links doc of None \<Rightarrow> [] | Some ls \<Rightarrow> ls). rel \<notin> set (link_rel l)"
  proof -
    have "\<forall>ent \<in> set (case entities doc of None \<Rightarrow> [] | Some es \<Rightarrow> es).
        spec_entity_candidate getSelf rel state ent = None"
      using es by (auto simp: spec_entity_candidate_def)
    moreover have "\<forall>l \<in> set (case links doc of None \<Rightarrow> [] | Some ls \<Rightarrow> ls).
        spec_link_candidate rel state l = None"
      using ls by (simp add: spec_link_candidate_def)
    ultimately have "collect getSelf rel state cache0 doc (ext w1) = ([], ext w1)"
      by (simp add: collect_def fold_visit_entity_skip fold_visit_link_skip)
    then show ?thesis using g by (simp add: follow_def)
  qed
  from a b show ?thesis by blast
qed

subsection \<open>Content negotiation\<close>

lemma acquiredI: "getOr cache0 (cur s) x = (h, y) \<Longrightarrow> cacheEntry s = h \<Longrightarrow> acquired cache0 s"
  unfolding acquired_def by (metis fst_conv)

lemma accept_Resolved:
  "\<exists>s'. fst (accept ctype state cache0 debug w) = Resolved s' \<and>
        cur s' = cur state \<and> root s' = root state \<and> acquired cache0 s' \<and>
        acceptHeader (snd (accept ctype state cache0 debug w)) s' =
          Some (case acceptHeader w state of None \<Rightarrow> ctype | Some v \<Rightarrow> v @ '', '' @ ctype)"
proof -
  obtain h y where g: "getOr cache0 (cur state) (ext w) = (h, y)"
    by (cases "getOr cache0 (cur state) (ext w)")
  show ?thesis
  proof (cases "headers (config state)")
    case None
    let ?s = "\<lparr>cur = cur state, root = root state,
        config = (config state)\<lparr>headers := Some (fresh w)\<rparr>, cacheEntry = h\<rparr>"
    have "fst (accept ctype state cache0 debug w) = Resolved ?s"
      by (simp add: accept_def alloc_def Let_def None g)
    moreover have "acquired cache0 ?s"
      by (rule acquiredI [where x = "ext w" and h = h and y = y]) (simp_all add: g)
    moreover have "acceptHeader (snd (accept ctype state cache0 debug w)) ?s = Some ctype"
      by (simp add: accept_def alloc_def Let_def None g acceptHeader_def)
    ultimately show ?thesis
      by (simp add: acceptHeader_def None)
  next
    case (Some a)
    let ?s = "\<lparr>cur = cur state, root = root state,
        config = (config state)\<lparr>headers := Some a\<rparr>, cacheEntry = h\<rparr>"
    have "fst (accept ctype state cache0 debug w) = Resolved ?s"
      by (simp add: accept_def Let_def Some g)
    moreover have "acquired cache0 ?s"
      by (rule acquiredI [where x = "ext w" and h = h and y = y]) (simp_all add: g)
    moreover have "acceptHeader (snd (accept ctype state cache0 debug w)) ?s =
        Some (case heap w a ''Accept'' of None \<Rightarrow> ctype | Some v \<Rightarrow> v @ '', '' @ ctype)"
      by (simp add: accept_def Let_def Some g acceptHeader_def split: option.splits)
    ultimately show ?thesis
      by (simp add: acceptHeader_def Some)
  qed
qed

lemma accept_twice:
  "\<exists>s'. fst (reduce (Resolved state) [accept a, accept b] cache0 debug w) = Resolved s' \<and>
        acceptHeader (snd (reduce (Resolved state) [accept a, accept b] cache0 debug w)) s' =
          Some (case acceptHeader w state of
                  None \<Rightarrow> a @ '', '' @ b
                | Some v \<Rightarrow> v @ '', '' @ a @ '', '' @ b)"
proof -
  obtain r1 w1 where e1: "accept a state cache0 debug w = (r1, w1)"
    by (cases "accept a state cache0 debug w")
  from accept_Resolved [of a state cache0 debug w] e1
  obtain s1 where s1: "r1 = Resolved s1"
    and h1: "acceptHeader w1 s1 = Some (case acceptHeader w state of None \<Rightarrow> a | Some v \<Rightarrow> v @ '', '' @ a)"
    by auto
  obtain r2 w2 where e2: "accept b s1 cache0 debug w1 = (r2, w2)"
    by (cases "accept b s1 cache0 debug w1")
  from accept_Resolved [of b s1 cache0 debug w1] e2
  obtain s2 where s2: "r2 = Resolved s2"
    and h2: "acceptHeader w2 s2 = Some (case acceptHeader w1 s1 of None \<Rightarrow> b | Some v \<Rightarrow> v @ '', '' @ b)"
    by auto
  have "reduce (Resolved state) [accept a, accept b] cache0 debug w = (Resolved s2, w2)"
    by (simp add: e1 s1 e2 s2)
  moreover have "acceptHeader w2 s2 =
      Some (case acceptHeader w state of None \<Rightarrow> a @ '', '' @ b | Some v \<Rightarrow> v @ '', '' @ a @ '', '' @ b)"
    using h1 h2 by (simp split: option.splits)
  ultimately show ?thesis by simp
qed

text \<open>
  Claim C8. One \<open>accept(ctype)\<close> step yields a state whose Accept header is the previous
  value followed by \<open>", "\<close> and \<open>ctype\<close>, or \<open>ctype\<close> alone when there was none. The steps
  \<open>accept(a)\<close> then \<open>accept(b)\<close> yield \<open>a, b\<close> after whatever was there, also at the end of
  the chain of any navigator.
\<close>

theorem accept_appends_in_call_order:
  "(\<exists>s'. fst (accept ctype state cache0 debug w) = Resolved s' \<and>
        acceptHeader (snd (accept ctype state cache0 debug w)) s' =
          Some (case acceptHeader w state of None \<Rightarrow> ctype | Some v \<Rightarrow> v @ '', '' @ ctype))
   \<and> (\<exists>s'. fst (reduce (Resolved state) [accept a, accept b] cache0 debug w) = Resolved s' \<and>
        acceptHeader (snd (reduce (Resolved state) [accept a, accept b] cache0 debug w)) s' =
          Some (case acceptHeader w state of
                  None \<Rightarrow> a @ '', '' @ b
                | Some v \<Rightarrow> v @ '', '' @ a @ '', '' @ b))
   \<and> (\<forall>s. final_state nav debug w = Resolved s \<longrightarrow>
        (\<exists>s'. final_state (nav_accept b (nav_accept a nav)) debug w = Resolved s' \<and>
           acceptHeader (snd (reduce (start nav) (steps nav @ [accept a, accept b]) (cache nav)
                                debug w)) s' =
             Some (case acceptHeader (snd (reduce (start nav) (steps nav) (cache nav) debug w)) s of
                     None \<Rightarrow> a @ '', '' @ b
                   | Some v \<Rightarrow> v @ '', '' @ a @ '', '' @ b)))"
proof -
  have c: "\<exists>s'. final_state (nav_accept b (nav_accept a nav)) debug w = Resolved s' \<and>
           acceptHeader (snd (reduce (start nav) (steps nav @ [accept a, accept b]) (cache nav)
                                debug w)) s' =
             Some (case acceptHeader (snd (reduce (start nav) (steps nav) (cache nav) debug w)) s of
                     None \<Rightarrow> a @ '', '' @ b
                   | Some v \<Rightarrow> v @ '', '' @ a @ '', '' @ b)"
    if "final_state nav debug w = Resolved s" for s
  proof -
    let ?w1 = "snd (reduce (start nav) (steps nav) (cache nav) debug w)"
    from that have r: "fst (reduce (start nav) (steps nav) (cache nav) debug w) = Resolved s"
      by (simp add: final_state_def)
    have "reduce (start nav) (steps nav @ [accept a, accept b]) (cache nav) debug w =
        reduce (Resolved s) [accept a, accept b] (cache nav) debug ?w1"
      using reduce_append [of "start nav" "steps nav" "[accept a, accept b]" "cache nav" debug w] r
      by simp
    then show ?thesis
      using accept_twice [where state = s and a = a and b = b and ?cache0.0 = "cache nav"
          and debug = debug and w = ?w1]
      by (simp add: final_state_def nav_accept_def do_step_def)
  qed
  have a: "\<exists>s'. fst (accept ctype state cache0 debug w) = Resolved s' \<and>
        acceptHeader (snd (accept ctype state cache0 debug w)) s' =
          Some (case acceptHeader w state of None \<Rightarrow> ctype | Some v \<Rightarrow> v @ '', '' @ ctype)"
    using accept_Resolved [of ctype state cache0 debug w] by blast
  note b = accept_twice [where state = state and a = a and b = b and ?cache0.0 = cache0
          and debug = debug and w = w]
  from a b c show ?thesis by blast
qed

subsection \<open>Cache handles\<close>

lemma follow_acquired:
  assumes "fst (follow getSiren getSelf rel first state cache0 debug w) = Resolved s'"
  shows "acquired cache0 s'"
proof -
  obtain r w1 where g: "getSiren state w = (r, w1)" by (cases "getSiren state w")
  show ?thesis
  proof (cases r)
    case (Resolved doc)
    let ?ps = "fst (collect getSelf rel state cache0 doc (ext w1))"
    have out: "fst (follow getSiren getSelf rel first state cache0 debug w) =
       (if ?ps = [] then Rejected (NoMatch rel doc)
        else if 1 < length ?ps \<and> first \<noteq> Some True then Rejected (AmbiguousMatch rel doc)
        else Resolved (hd ?ps))"
      using follow_on_doc [where getSiren = getSiren and state = state and w = w and doc = doc
        and ?w1.0 = w1 and getSelf = getSelf and rel = rel and first = first
        and ?cache0.0 = cache0 and debug = debug] g Resolved
      by simp
    with assms have ne: "?ps \<noteq> []" and s': "s' = hd ?ps"
      by (auto split: if_splits)
    have "list_all (derived cache0 state) ?ps" by (rule collect_derived)
    with ne have "derived cache0 state (hd ?ps)" by (cases ?ps) simp_all
    then show ?thesis by (simp add: s' derived_def)
  next
    case (Rejected e)
    with g assms show ?thesis by (simp add: follow_def)
  next
    case Pending
    with g assms show ?thesis by (simp add: follow_def)
  qed
qed

lemma reduce_acquired:
  assumes "\<forall>st \<in> set ss. \<forall>s d w s'. fst (st s cache0 d w) = Resolved s' \<longrightarrow> acquired cache0 s'"
    and "\<forall>s. cur0 = Resolved s \<longrightarrow> acquired cache0 s"
    and "fst (reduce cur0 ss cache0 debug w) = Resolved s'"
  shows "acquired cache0 s'"
  using assms
proof (induction ss arbitrary: cur0 w)
  case Nil
  then show ?case by simp
next
  case (Cons st ss)
  show ?case
  proof (cases cur0)
    case (Resolved s)
    obtain r w1 where e: "st s cache0 debug w = (r, w1)" by (cases "st s cache0 debug w")
    have "\<forall>t. r = Resolved t \<longrightarrow> acquired cache0 t"
      using Cons.prems(1) e by (metis fst_conv list.set_intros(1))
    moreover have "fst (reduce r ss cache0 debug w1) = Resolved s'"
      using Cons.prems(3) Resolved e by simp
    ultimately show ?thesis
      using Cons.IH [of r w1] Cons.prems(1) by simp
  next
    case (Rejected e)
    with Cons.prems(3) show ?thesis by simp
  next
    case Pending
    with Cons.prems(3) show ?thesis by simp
  qed
qed

lemma engine_nav_invariant:
  assumes "engine_nav getSiren getSelf cache0 nav"
  shows "cache nav = cache0 \<and> (\<forall>s. start nav = Resolved s \<longrightarrow> acquired cache0 s) \<and>
     (\<forall>st \<in> set (steps nav). \<forall>s d w s'. fst (st s cache0 d w) = Resolved s' \<longrightarrow> acquired cache0 s')"
  using assms
proof (induction rule: engine_nav.induct)
  case (by_create url base w)
  show ?case by (auto simp: create_def split: prod.splits intro: acquiredI)
next
  case (by_accept nav ctype)
  have "\<forall>s d w s'. fst (accept ctype s cache0 d w) = Resolved s' \<longrightarrow> acquired cache0 s'"
    using accept_Resolved by (metis outcome.inject)
  with by_accept.IH show ?case by (simp add: nav_accept_def do_step_def)
next
  case (by_follow nav rel first)
  have "\<forall>s d w s'. fst (follow getSiren getSelf rel first s cache0 d w) = Resolved s' \<longrightarrow>
      acquired cache0 s'"
    using follow_acquired by blast
  with by_follow.IH show ?case by (simp add: nav_follow_def do_step_def)
next
  case (by_goto nav url w)
  then show ?case
    by (auto simp: goto_def split: outcome.splits prod.splits intro: acquiredI)
next
  case (by_sqaush nav debug w)
  have "\<forall>s. fst (reduce (start nav) (steps nav) cache0 debug w) = Resolved s \<longrightarrow> acquired cache0 s"
    using by_sqaush.IH reduce_acquired [of "steps nav" cache0 "start nav" debug w] by blast
  with by_sqaush.IH show ?case by (simp add: sqaush_def split: prod.splits)
qed

text \<open>
  Claim C9. The state \<open>create\<close> builds, the state \<open>accept\<close> builds, every candidate state
  \<open>follow\<close> builds and the state \<open>goto\<close> builds carry a handle that \<open>getOr\<close> of the shared cache
  returned for the state's own current URI; so does the starting state and every resolved
  state of a navigator built by \<open>create\<close>, \<open>accept\<close>, \<open>follow\<close>, \<open>goto\<close> and \<open>sqaush\<close>.
\<close>

theorem cache_handle_for_current:
  "(\<exists>s. start (fst (create url base cache0 w)) = Resolved s \<and> acquired cache0 s)
   \<and> (\<exists>s'. fst (accept ctype state cache0 debug w) = Resolved s' \<and> acquired cache0 s')
   \<and> list_all (acquired cache0) (fst (collect getSelf rel state cache0 doc x))
   \<and> (\<forall>s'. start (fst (goto url nav w)) = Resolved s' \<longrightarrow> acquired (cache nav) s')
   \<and> (engine_nav getSiren getSelf cache0 nav' \<longrightarrow>
        (\<forall>s. start nav' = Resolved s \<longrightarrow> acquired cache0 s) \<and>
        (\<forall>s. final_state nav' debug w = Resolved s \<longrightarrow> acquired cache0 s))"
proof -
  have a: "\<exists>s. start (fst (create url base cache0 w)) = Resolved s \<and> acquired cache0 s"
    by (auto simp: create_def split: prod.splits intro: acquiredI)
  have b: "\<exists>s'. fst (accept ctype state cache0 debug w) = Resolved s' \<and> acquired cache0 s'"
    using accept_Resolved [of ctype state cache0 debug w] by blast
  have c: "list_all (acquired cache0) (fst (collect getSelf rel state cache0 doc x))"
    using collect_derived [of cache0 state getSelf rel doc x]
    by (simp add: list_all_iff derived_def)
  have d: "acquired (cache nav) s'" if "start (fst (goto url nav w)) = Resolved s'" for s'
    using that by (auto simp: goto_def split: outcome.splits prod.splits intro: acquiredI)
  have e: "(\<forall>s. start nav' = Resolved s \<longrightarrow> acquired cache0 s) \<and>
        (\<forall>s. final_state nav' debug w = Resolved s \<longrightarrow> acquired cache0 s)"
    if "engine_nav getSiren getSelf cache0 nav'"
  proof -
    note inv = engine_nav_invariant [OF that]
    have "acquired cache0 s" if "final_state nav' debug w = Resolved s" for s
      using reduce_acquired [of "steps nav'" cache0 "start nav'" debug w s] inv that
      by (simp add: final_state_def)
    with inv show ?thesis by blast
  qed
  from a b c d e show ?thesis by blast
qed

subsection \<open>The engine on concrete inputs\<close>

lemmas engine_defs = reduce.simps accept_def alloc_def follow_def collect_def visit_entity_def
  visit_link_def create_def do_step_def nav_accept_def nav_follow_def sqaush_def goto_def
  getURL_def get_def Let_def

lemmas input_defs = uri_cache_def empty_world_def self_href_def serve_def item1_def item2_def
  item_bare_def api_doc_def api_state_def api_nav_def pending_nav_def squashed_nav_def
  squashed_state_def bare_doc_def widgets_nav_def item_nav_def

text \<open>
  Claim C1, evaluated on the code. The spread in \<open>accept\<close> copies the configuration but not
  its \<open>headers\<close> object: a state that already has one shares it with the new state, and
  \<open>+=\<close> writes into it. For the squashed navigator, whose starting state sends \<open>x\<close>, one
  \<open>accept("b")\<close> step makes that same starting state send \<open>x, b\<close>; resolving
  \<open>accept("a").accept("b")\<close> on it makes it send \<open>x, a, b\<close>.
\<close>

theorem accept_mutates_shared_headers:
  "start (fst squashed_nav) = Resolved squashed_state
   \<and> acceptHeader (snd squashed_nav) squashed_state = Some ''x''
   \<and> acceptHeader (snd (accept ''b'' squashed_state uri_cache False (snd squashed_nav)))
         squashed_state = Some ''x, b''
   \<and> fst (getURL (nav_accept ''b'' (nav_accept ''a'' (fst squashed_nav))) False (snd squashed_nav))
       = Resolved ''/api''
   \<and> acceptHeader (snd (getURL (nav_accept ''b'' (nav_accept ''a'' (fst squashed_nav))) False
         (snd squashed_nav))) squashed_state = Some ''x, a, b''"
  by (simp add: acceptHeader_def engine_defs input_defs)

text \<open>
  Claim C2, evaluated on the code. \<open>goto\<close> awaits \<open>this.start\<close> and never looks at
  \<open>this.steps\<close>: for \<open>create(...).accept("x")\<close> the chain resolves to a state that sends
  \<open>Accept: x\<close>, while the navigator \<open>goto\<close> returns starts from a state with the
  configuration of \<open>create\<close>, without headers.
\<close>

theorem goto_discards_pending_steps:
  "steps pending_nav = [accept ''x'']
   \<and> final_state pending_nav False (snd api_nav) = Resolved squashed_state
   \<and> acceptHeader (snd (reduce (start pending_nav) (steps pending_nav) (cache pending_nav) False
         (snd api_nav))) squashed_state = Some ''x''
   \<and> start (fst (goto ''/other'' pending_nav (snd api_nav))) =
       Resolved \<lparr>cur = ''/other'', root = ''http://h'',
                 config = \<lparr>headers = None, payload = RequestOptions ''http://h''\<rparr>,
                 cacheEntry = ''/other''\<rparr>
   \<and> acceptHeader (snd (goto ''/other'' pending_nav (snd api_nav)))
         \<lparr>cur = ''/other'', root = ''http://h'',
          config = \<lparr>headers = None, payload = RequestOptions ''http://h''\<rparr>,
          cacheEntry = ''/other''\<rparr> = None
   \<and> steps (fst (goto ''/other'' pending_nav (snd api_nav))) = []
   \<and> fst (goto ''/other'' pending_nav (snd api_nav)) =
       fst (goto ''/other'' (fst api_nav) (snd api_nav))"
  by (simp add: final_state_def acceptHeader_def engine_defs input_defs)


lemma api_item_candidates:
  "spec_candidates self_href ''item'' api_state api_doc =
     [(''/items/2'', \<lparr>headers = None, payload = EntityData item2\<rparr>),
      (''/items/1'', config api_state), (''/items/3'', config api_state)]"
  by (simp add: spec_candidates_def spec_entity_candidate_def spec_link_candidate_def
      List.map_filter_def input_defs)

lemma api_widgets_candidates:
  "spec_candidates self_href ''widgets'' api_state api_doc = [(''/widgets'', config api_state)]"
  by (simp add: spec_candidates_def spec_entity_candidate_def spec_link_candidate_def
      List.map_filter_def input_defs)

lemma api_nope_candidates: "spec_candidates self_href ''nope'' api_state api_doc = []"
  by (simp add: spec_candidates_def spec_entity_candidate_def spec_link_candidate_def
      List.map_filter_def input_defs)

lemma serve_api: "serve api_doc api_state empty_world = (Resolved api_doc, empty_world)"
  by (simp add: serve_def)

theorem follow_fails_iff_witness:
  "serve api_doc api_state empty_world = (Resolved api_doc, empty_world)
   \<and> fst (follow (serve api_doc) self_href ''nope'' None api_state uri_cache False empty_world) =
       Rejected (NoMatch ''nope'' api_doc)
   \<and> fst (follow (serve api_doc) self_href ''item'' None api_state uri_cache False empty_world) =
       Rejected (AmbiguousMatch ''item'' api_doc)
   \<and> fst (follow (serve api_doc) self_href ''item'' (Some False) api_state uri_cache False
         empty_world) = Rejected (AmbiguousMatch ''item'' api_doc)
   \<and> (\<exists>s. fst (follow (serve api_doc) self_href ''item'' (Some True) api_state uri_cache False
         empty_world) = Resolved s)
   \<and> (\<exists>s. fst (follow (serve api_doc) self_href ''widgets'' None api_state uri_cache False
         empty_world) = Resolved s)"
proof -
  note on_api = follow_fails_iff [where getSiren = "serve api_doc" and state = api_state
      and w = empty_world and doc = api_doc and ?w1.0 = empty_world and getSelf = self_href
      and ?cache0.0 = uri_cache and debug = False, OF serve_api]
  from on_api [of "''nope''" None] on_api [of "''item''" None] on_api [of "''item''" "Some False"]
    on_api [of "''item''" "Some True"] on_api [of "''widgets''" None]
  show ?thesis
    by (simp add: serve_api api_item_candidates api_widgets_candidates api_nope_candidates)
qed

theorem follow_takes_first_candidate_witness:
  "serve api_doc api_state empty_world = (Resolved api_doc, empty_world)
   \<and> (\<exists>s. fst (follow (serve api_doc) self_href ''item'' (Some True) api_state uri_cache False
         empty_world) = Resolved s \<and>
         target s = (''/items/2'', \<lparr>headers = None, payload = EntityData item2\<rparr>))
   \<and> (\<forall>f. \<exists>s. fst (follow (serve api_doc) self_href ''widgets'' f api_state uri_cache False
         empty_world) = Resolved s \<and> target s = (''/widgets'', config api_state))"
proof -
  note on_api = follow_takes_first_candidate [where getSiren = "serve api_doc"
      and state = api_state and w = empty_world and doc = api_doc and ?w1.0 = empty_world
      and getSelf = self_href and ?cache0.0 = uri_cache and debug = False, OF serve_api]
  from on_api [of "''item''" "Some True"] on_api [of "''widgets''" None]
  show ?thesis
    by (simp add: serve_api api_item_candidates api_widgets_candidates)
qed


theorem follow_candidate_states_witness:
  "''item'' \<in> set (ent_rel item1) \<and> ent_href item1 = Some ''/items/1''
   \<and> visit_entity self_href ''item'' api_state uri_cache item1 ([], []) =
       ([\<lparr>cur = ''/items/1'', root = ''http://h'', config = config api_state,
          cacheEntry = ''/items/1''\<rparr>], [''/items/1''])
   \<and> ''item'' \<in> set (ent_rel item2) \<and> ent_href item2 = None
   \<and> self_href item2 = Some ''/items/2''
   \<and> visit_entity self_href ''item'' api_state uri_cache item2 ([], []) =
       ([\<lparr>cur = ''/items/2'', root = ''http://h'',
          config = \<lparr>headers = None, payload = EntityData item2\<rparr>,
          cacheEntry = ''/items/2''\<rparr>], [''/items/2''])
   \<and> visit_link ''item'' api_state uri_cache
         \<lparr>link_rel = [''item''], link_href = ''/items/3''\<rparr> ([], []) =
       ([\<lparr>cur = ''/items/3'', root = ''http://h'', config = config api_state,
          cacheEntry = ''/items/3''\<rparr>], [''/items/3''])"
proof -
  have h1: "''item'' \<in> set (ent_rel item1) \<and> ent_href item1 = Some ''/items/1''"
    by (simp add: item1_def)
  have h2: "''item'' \<in> set (ent_rel item2) \<and> ent_href item2 = None \<and>
      self_href item2 = Some ''/items/2'' \<and> ''/items/2'' \<noteq> []"
    by (simp add: item2_def self_href_def)
  have h3: "''item'' \<in> set (link_rel \<lparr>link_rel = [''item''], link_href = ''/items/3''\<rparr>)"
    by simp
  from h1 h2 h3
    follow_candidate_states [where rel = "''item''" and ent = item1 and href = "''/items/1''"
      and getSelf = self_href and state = api_state and ?cache0.0 = uri_cache and ps = "[]"
      and x = "[]" and l = "\<lparr>link_rel = [''item''], link_href = ''/items/3''\<rparr>"]
    follow_candidate_states [where rel = "''item''" and ent = item2 and self = "''/items/2''"
      and getSelf = self_href and state = api_state and ?cache0.0 = uri_cache and ps = "[]"
      and x = "[]" and l = "\<lparr>link_rel = [''item''], link_href = ''/items/3''\<rparr>"]
  show ?thesis
    by (simp add: uri_cache_def api_state_def)
qed

lemma serve_bare: "serve bare_doc api_state empty_world = (Resolved bare_doc, empty_world)"
  by (simp add: serve_def)

theorem follow_skips_entity_without_reference_witness:
  "''bare'' \<in> set (ent_rel item_bare) \<and> ent_href item_bare = None \<and> self_href item_bare = None
   \<and> visit_entity self_href ''bare'' api_state uri_cache item_bare ([], []) = ([], [])
   \<and> serve bare_doc api_state empty_world = (Resolved bare_doc, empty_world)
   \<and> follow (serve bare_doc) self_href ''bare'' None api_state uri_cache False empty_world =
       (Rejected (NoMatch ''bare'' bare_doc), empty_world)"
proof -
  have h1: "''bare'' \<in> set (ent_rel item_bare) \<and> ent_href item_bare = None \<and>
      self_href item_bare = None"
    by (simp add: item_bare_def self_href_def)
  have h2: "\<forall>ent \<in> set (case entities bare_doc of None \<Rightarrow> [] | Some es \<Rightarrow> es).
      ''bare'' \<in> set (ent_rel ent) \<longrightarrow>
        ent_href ent = None \<and> (self_href ent = None \<or> self_href ent = Some [])"
    by (simp add: bare_doc_def item_bare_def self_href_def)
  have h3: "\<forall>l \<in> set (case links bare_doc of None \<Rightarrow> [] | Some ls \<Rightarrow> ls).
      ''bare'' \<notin> set (link_rel l)"
    by (simp add: bare_doc_def)
  from h1 h2 h3 serve_bare
    follow_skips_entity_without_reference [where rel = "''bare''" and ent = item_bare
      and getSelf = self_href and state = api_state and ?cache0.0 = uri_cache and ps = "[]"
      and x = "[]" and getSiren = "serve bare_doc" and w = empty_world and doc = bare_doc
      and ?w1.0 = empty_world and first = None and debug = False]
  show ?thesis
    by simp
qed

text \<open>A chain \<open>accept\<close>, \<open>follow\<close> of an absent relation, \<open>accept\<close>: the failure of the
  second step is the result, and the third step did not run (the header is still \<open>a\<close>).\<close>

theorem reduce_sequential_fold_witness:
  "fst (reduce (Resolved api_state) [accept ''a''] uri_cache False empty_world) =
     Resolved squashed_state
   \<and> fst (follow (serve api_doc) self_href ''nope'' None squashed_state uri_cache False
        (snd (reduce (Resolved api_state) [accept ''a''] uri_cache False empty_world))) =
     Rejected (NoMatch ''nope'' api_doc)
   \<and> fst (reduce (Resolved api_state)
        ([accept ''a''] @ follow (serve api_doc) self_href ''nope'' None # [accept ''b''])
        uri_cache False empty_world) = Rejected (NoMatch ''nope'' api_doc)
   \<and> acceptHeader (snd (reduce (Resolved api_state)
        ([accept ''a''] @ follow (serve api_doc) self_href ''nope'' None # [accept ''b''])
        uri_cache False empty_world)) squashed_state = Some ''a''"
proof -
  let ?w1 = "snd (reduce (Resolved api_state) [accept ''a''] uri_cache False empty_world)"
  let ?w2 = "snd (follow (serve api_doc) self_href ''nope'' None squashed_state uri_cache False ?w1)"
  let ?chain = "[accept ''a''] @ follow (serve api_doc) self_href ''nope'' None # [accept ''b'']"
  have f1: "fst (reduce (Resolved api_state) [accept ''a''] uri_cache False empty_world) =
      Resolved squashed_state"
    by (simp add: engine_defs input_defs)
  have f2: "fst (follow (serve api_doc) self_href ''nope'' None squashed_state uri_cache False ?w1) =
      Rejected (NoMatch ''nope'' api_doc)"
    by (simp add: engine_defs input_defs)
  have f3: "acceptHeader ?w2 squashed_state = Some ''a''"
    by (simp add: acceptHeader_def engine_defs input_defs)
  have h1: "reduce (Resolved api_state) [accept ''a''] uri_cache False empty_world =
      (Resolved squashed_state, ?w1)"
    by (rule prod_eqI) (simp_all only: f1 fst_conv snd_conv)
  have h2: "follow (serve api_doc) self_href ''nope'' None squashed_state uri_cache False ?w1 =
      (Rejected (NoMatch ''nope'' api_doc), ?w2)"
    by (rule prod_eqI) (simp_all only: f2 fst_conv snd_conv)
  from h1 h2
    reduce_sequential_fold [where ?cur0.0 = "Resolved api_state" and pre = "[accept ''a'']"
      and ?cache0.0 = uri_cache and debug = False and w = empty_world and state = squashed_state
      and ?w1.0 = ?w1 and step = "follow (serve api_doc) self_href ''nope'' None"
      and e = "NoMatch ''nope'' api_doc" and ?w2.0 = ?w2 and rest = "[accept ''b'']"]
  have r: "reduce (Resolved api_state) ?chain uri_cache False empty_world =
      (Rejected (NoMatch ''nope'' api_doc), ?w2)"
    by blast
  have r1: "fst (reduce (Resolved api_state) ?chain uri_cache False empty_world) =
      Rejected (NoMatch ''nope'' api_doc)"
    by (simp only: r fst_conv)
  have r2: "acceptHeader (snd (reduce (Resolved api_state) ?chain uri_cache False empty_world))
      squashed_state = Some ''a''"
    by (simp only: r snd_conv f3)
  from f1 f2 r1 r2 show ?thesis by blast
qed

theorem sqaush_resolves_once_witness:
  "final_state widgets_nav False (snd (sqaush widgets_nav False (snd api_nav))) =
     final_state widgets_nav False (snd api_nav)
   \<and> steps (fst (sqaush widgets_nav False (snd api_nav))) = []
   \<and> start (fst (sqaush widgets_nav False (snd api_nav))) =
       Resolved \<lparr>cur = ''/widgets'', root = ''http://h'',
                 config = \<lparr>headers = None, payload = RequestOptions ''http://h''\<rparr>,
                 cacheEntry = ''/widgets''\<rparr>
   \<and> final_state (fst (sqaush widgets_nav False (snd api_nav))) False
         (snd (sqaush widgets_nav False (snd api_nav))) =
       final_state widgets_nav False (snd (sqaush widgets_nav False (snd api_nav)))"
proof -
  have f: "final_state widgets_nav False (snd api_nav) =
       Resolved \<lparr>cur = ''/widgets'', root = ''http://h'',
                 config = \<lparr>headers = None, payload = RequestOptions ''http://h''\<rparr>,
                 cacheEntry = ''/widgets''\<rparr>"
    by (simp add: final_state_def engine_defs input_defs)
  have h: "final_state widgets_nav False (snd (sqaush widgets_nav False (snd api_nav))) =
     final_state widgets_nav False (snd api_nav)"
    by (simp add: final_state_def engine_defs input_defs)
  from h f
    sqaush_resolves_once [where nav = widgets_nav and debug = False and w = "snd api_nav"
      and getRequest = "\<lambda>s d w. (Resolved (cur s), w)"]
  show ?thesis by simp
qed

theorem accept_appends_in_call_order_witness:
  "final_state (fst api_nav) False (snd api_nav) = Resolved api_state
   \<and> acceptHeader (snd api_nav) api_state = None
   \<and> final_state (nav_accept ''b'' (nav_accept ''a'' (fst api_nav))) False (snd api_nav) =
       Resolved squashed_state
   \<and> acceptHeader (snd (reduce (start (fst api_nav)) (steps (fst api_nav) @ [accept ''a'', accept ''b''])
        (cache (fst api_nav)) False (snd api_nav))) squashed_state = Some ''a, b''"
proof -
  have h: "final_state (fst api_nav) False (snd api_nav) = Resolved api_state"
    by (simp add: final_state_def engine_defs input_defs)
  have n: "acceptHeader (snd api_nav) api_state = None"
    by (simp add: acceptHeader_def api_state_def)
  have n': "acceptHeader (snd (reduce (start (fst api_nav)) (steps (fst api_nav))
      (cache (fst api_nav)) False (snd api_nav))) api_state = None"
    by (simp add: acceptHeader_def api_state_def)
  have f: "final_state (nav_accept ''b'' (nav_accept ''a'' (fst api_nav))) False (snd api_nav) =
       Resolved squashed_state"
    by (simp add: final_state_def engine_defs input_defs)
  from h n' f
    accept_appends_in_call_order [where nav = "fst api_nav" and debug = False
      and w = "snd api_nav" and a = "''a''" and b = "''b''"]
  have "acceptHeader (snd (reduce (start (fst api_nav))
        (steps (fst api_nav) @ [accept ''a'', accept ''b'']) (cache (fst api_nav)) False
        (snd api_nav))) squashed_state = Some ''a, b''"
    by auto
  with h n f show ?thesis by blast
qed

theorem cache_handle_for_current_witness:
  "engine_nav (serve api_doc) self_href uri_cache item_nav
   \<and> final_state item_nav False (snd api_nav) =
       Resolved \<lparr>cur = ''/items/2'', root = ''http://h'',
                 config = \<lparr>headers = None, payload = EntityData item2\<rparr>,
                 cacheEntry = ''/items/2''\<rparr>
   \<and> acquired uri_cache \<lparr>cur = ''/items/2'', root = ''http://h'',
                 config = \<lparr>headers = None, payload = EntityData item2\<rparr>,
                 cacheEntry = ''/items/2''\<rparr>"
proof -
  have e: "engine_nav (serve api_doc) self_href uri_cache item_nav"
    unfolding item_nav_def api_nav_def
    by (intro engine_nav.by_follow engine_nav.by_accept engine_nav.by_create)
  have f: "final_state item_nav False (snd api_nav) =
       Resolved \<lparr>cur = ''/items/2'', root = ''http://h'',
                 config = \<lparr>headers = None, payload = EntityData item2\<rparr>,
                 cacheEntry = ''/items/2''\<rparr>"
    by (simp add: final_state_def engine_defs input_defs)
  from e f
    cache_handle_for_current [where getSiren = "serve api_doc" and getSelf = self_href
      and ?cache0.0 = uri_cache and nav' = item_nav and debug = False and w = "snd api_nav"]
  show ?thesis by blast
qed

end
